theory Spec2Isabelle
  imports Main
begin

section \<open>POSIX path strings (the functions of Node's \<open>path\<close> module that the code calls)\<close>

text \<open>
  Paths are strings, as in the source. \<open>components\<close> is JavaScript's \<open>p.split('/')\<close>:
  it keeps empty pieces and never returns the empty list.
\<close>

fun components :: "string \<Rightarrow> string list" where
  "components [] = [[]]"
| "components (c # cs) =
     (if c = CHR ''/'' then [] # components cs
      else (case components cs of
              [] \<Rightarrow> [[c]]
            | x # xs \<Rightarrow> (c # x) # xs))"

definition segments :: "string \<Rightarrow> string list" where
  "segments p = filter (\<lambda>s. s \<noteq> []) (components p)"

definition isAbsolute :: "string \<Rightarrow> bool" where
  "isAbsolute p = (case p of [] \<Rightarrow> False | c # _ \<Rightarrow> c = CHR ''/'')"

text \<open>\<open>join_slash\<close> is \<open>xs.join('/')\<close>.\<close>

fun join_slash :: "string list \<Rightarrow> string" where
  "join_slash [] = []"
| "join_slash [x] = x"
| "join_slash (x # y # ys) = x @ CHR ''/'' # join_slash (y # ys)"

text \<open>
  \<open>normalizeString\<close> of Node's \<open>path\<close>: empty and \<open>.\<close> segments are dropped, \<open>..\<close>
  removes the segment before it unless there is none or it is itself \<open>..\<close>; then \<open>..\<close> is
  kept when the path is relative (\<open>allowAboveRoot\<close>) and dropped when it is absolute. The
  accumulator holds the segments kept so far, last one first.
\<close>

fun normalizeSegs :: "bool \<Rightarrow> string list \<Rightarrow> string list \<Rightarrow> string list" where
  "normalizeSegs allowAboveRoot acc [] = rev acc"
| "normalizeSegs allowAboveRoot acc (s # ss) =
     (if s = [] \<or> s = ''.'' then normalizeSegs allowAboveRoot acc ss
      else if s = ''..'' then
        (case acc of
           [] \<Rightarrow> normalizeSegs allowAboveRoot (if allowAboveRoot then [''..''] else []) ss
         | a # as \<Rightarrow>
             if a = ''..'' then
               normalizeSegs allowAboveRoot (if allowAboveRoot then ''..'' # acc else acc) ss
             else normalizeSegs allowAboveRoot as ss)
      else normalizeSegs allowAboveRoot (s # acc) ss)"

definition normalize :: "string \<Rightarrow> string" where
  "normalize p =
     (if p = [] then ''.''
      else
        let isAbs = isAbsolute p;
            trailingSeparator = (last p = CHR ''/'');
            q = join_slash (normalizeSegs (\<not> isAbs) [] (components p))
        in if q = [] then (if isAbs then ''/'' else if trailingSeparator then ''./'' else ''.'')
           else (if isAbs then ''/'' else []) @ q @ (if trailingSeparator then ''/'' else []))"

text \<open>\<open>path.join\<close>: the non-empty arguments joined by a slash, then normalised.\<close>

definition join :: "string list \<Rightarrow> string" where
  "join args =
     (let parts = filter (\<lambda>s. s \<noteq> []) args
      in if parts = [] then ''.'' else normalize (join_slash parts))"

text \<open>
  \<open>path.dirname\<close>: scanning from the end down to index 1, trailing slashes are skipped,
  then the last segment; the slash before it ends the result. Without such a slash the
  result is \<open>/\<close> or \<open>.\<close>; a slash found at index 1 of an absolute path gives \<open>//\<close>.
\<close>

definition dirname :: "string \<Rightarrow> string" where
  "dirname p =
     (case p of
        [] \<Rightarrow> ''.''
      | c # rest \<Rightarrow>
          (case dropWhile (\<lambda>x. x \<noteq> CHR ''/'') (dropWhile (\<lambda>x. x = CHR ''/'') (rev rest)) of
             [] \<Rightarrow> (if c = CHR ''/'' then ''/'' else ''.'')
           | _ # front \<Rightarrow>
               (if c = CHR ''/'' \<and> front = [] then ''//'' else c # rev front)))"

text \<open>\<open>String.prototype.startsWith\<close>.\<close>

definition startsWith :: "string \<Rightarrow> string \<Rightarrow> bool" where
  "startsWith s pre = (take (length pre) s = pre)"

section \<open>Errors\<close>

text \<open>
  What a rejected promise carries. \<open>Escape\<close> is one of the two errors whose message
  starts with \<open>Refusing to create a directory outside\<close> or \<open>Refusing to write outside\<close>,
  with that message; \<open>SymlinkWriteThrough\<close> is \<open>Refusing to write into a symlink\<close>;
  \<open>IOError\<close> is a failure of the file system with its code; \<open>TypeError\<close> is Node's
  complaint about an argument that is not a string; \<open>StripDirsError\<close> is the refusal of
  \<open>strip-dirs\<close>.
\<close>

datatype errno = ENOENT | ENOTDIR | EEXIST | ELOOP | EISDIR | EPERM | EINVAL

datatype error =
    Escape string
  | SymlinkWriteThrough
  | IOError errno
  | TypeError
  | StripDirsError

section \<open>The \<open>strip-dirs\<close> package\<close>

text \<open>
  \<open>stripDirs(pathStr, count)\<close> refuses a path that \<open>path.posix.isAbsolute\<close> or
  \<open>path.win32.isAbsolute\<close> calls absolute (a leading slash or backslash, or a drive
  letter, a colon and a separator); otherwise it splits the normalised
  path, drops a leading \<open>.\<close> when more follows, lowers \<open>count\<close> to keep the last piece
  (its default, \<open>disallowOverflow\<close> unset) and joins what is left.
\<close>

definition isWindowsDeviceRoot :: "char \<Rightarrow> bool" where
  "isWindowsDeviceRoot c \<longleftrightarrow>
     c \<in> set ''ABCDEFGHIJKLMNOPQRSTUVWXYZabcdefghijklmnopqrstuvwxyz''"

definition isPathSeparatorWin32 :: "char \<Rightarrow> bool" where
  "isPathSeparatorWin32 c \<longleftrightarrow> c = CHR ''/'' \<or> c = CHR 0x5C"

definition isAbsoluteWin32 :: "string \<Rightarrow> bool" where
  "isAbsoluteWin32 p =
     (case p of
        [] \<Rightarrow> False
      | c # rest \<Rightarrow>
          isPathSeparatorWin32 c \<or>
          (case rest of
             c1 # c2 # _ \<Rightarrow> isWindowsDeviceRoot c \<and> c1 = CHR '':'' \<and> isPathSeparatorWin32 c2
           | _ \<Rightarrow> False))"

definition stripDirs :: "string \<Rightarrow> nat \<Rightarrow> error + string" where
  "stripDirs pathStr count =
     (if isAbsolute pathStr \<or> isAbsoluteWin32 pathStr then Inl StripDirsError
      else
        let pathComponents = components (normalize pathStr);
            pathComponents = (if length pathComponents > 1 \<and> hd pathComponents = ''.''
                              then tl pathComponents else pathComponents);
            count = (if count > length pathComponents - 1 then length pathComponents - 1 else count)
        in Inr (join (drop count pathComponents)))"

section \<open>The file system\<close>

text \<open>
  The state that \<open>fs-extra\<close> and \<open>fs\<close> act on. A canonical path is the list of names from
  the root directory down; the root is the empty list and is always a directory. A regular
  file is a name for an inode, so hard links share content; a symbolic link stores its
  target string. Relative path strings are resolved from \<open>cwd\<close>.
\<close>

type_synonym cpath = "string list"

datatype node = Dir | Reg nat | Lnk string

record inode =
  content :: string
  perm :: nat
  modified :: int

record fs =
  nodes :: "cpath \<Rightarrow> node option"
  inodes :: "nat \<Rightarrow> inode option"
  dir_modified :: "cpath \<Rightarrow> int option"
  next_ino :: nat
  cwd :: cpath

definition lookup :: "fs \<Rightarrow> cpath \<Rightarrow> node option" where
  "lookup s c = (if c = [] then Some Dir else nodes s c)"

text \<open>A canonical path as the string \<open>realpath\<close> returns.\<close>

definition render :: "cpath \<Rightarrow> string" where
  "render c = (if c = [] then ''/'' else concat (map (\<lambda>x. CHR ''/'' # x) c))"

definition start :: "fs \<Rightarrow> string \<Rightarrow> cpath" where
  "start s p = (if isAbsolute p then [] else cwd s)"

text \<open>The number of symbolic links one path resolution follows before it gives up.\<close>

definition max_hops :: nat where
  "max_hops = 40"

text \<open>
  Path resolution, one name at a time from a canonical directory. A symbolic link is
  replaced by the pieces of its target. A piece flagged \<open>True\<close> is created as a directory
  when it is missing (the pieces of the argument of \<open>mkdirs\<close>); pieces that come from a
  link target are never created, so a dangling link is an error for \<open>mkdirs\<close> too.
\<close>

fun walk :: "fs \<Rightarrow> nat \<Rightarrow> cpath \<Rightarrow> (string \<times> bool) list \<Rightarrow> fs \<times> (errno + cpath)" where
  "walk s h cur [] = (s, Inr cur)"
| "walk s h cur ((x, mk) # rest) =
     (if x = [] \<or> x = ''.'' then walk s h cur rest
      else if x = ''..'' then walk s h (butlast cur) rest
      else
        (case nodes s (cur @ [x]) of
           None \<Rightarrow>
             if mk then walk (s\<lparr>nodes := (nodes s)((cur @ [x]) \<mapsto> Dir)\<rparr>) h (cur @ [x]) rest
             else (s, Inl ENOENT)
         | Some Dir \<Rightarrow> walk s h (cur @ [x]) rest
         | Some (Reg i) \<Rightarrow> if rest = [] then (s, Inr (cur @ [x])) else (s, Inl ENOTDIR)
         | Some (Lnk t) \<Rightarrow>
             if h = 0 then (s, Inl ELOOP)
             else if t = [] then (s, Inl ENOENT)
             else walk s (h - 1) (if isAbsolute t then [] else cur)
                    (map (\<lambda>y. (y, False)) (components t) @ rest)))"

definition resolve :: "fs \<Rightarrow> string \<Rightarrow> errno + cpath" where
  "resolve s p =
     (if p = [] then Inl ENOENT
      else snd (walk s max_hops (start s p) (map (\<lambda>y. (y, False)) (components p))))"

text \<open>
  \<open>realpath(p)\<close>: the canonical path of an existing file, every link followed. The
  path is resolved name by name as the operating system resolves it (\<open>realpath(3)\<close>,
  \<open>fs.realpath.native\<close>): a link is followed before a \<open>..\<close> behind it is applied, a
  missing name is an error also when a \<open>..\<close> follows it, and the empty path is an error.
  Node's \<open>fs.realpath\<close> first collapses \<open>.\<close> and \<open>..\<close> textually, in the path and in
  every link target; the two differ only on paths or link targets with a \<open>..\<close> behind a
  link or a missing name, and on the empty path.
\<close>

definition realpath :: "fs \<Rightarrow> string \<Rightarrow> errno + string" where
  "realpath s p = (case resolve s p of Inl e \<Rightarrow> Inl e | Inr c \<Rightarrow> Inr (render c))"

text \<open>
  \<open>mkdirs(p)\<close>: creates the directory and every missing ancestor; an existing directory
  is no error. Directories made before a failure stay.
\<close>

definition mkdirs :: "fs \<Rightarrow> string \<Rightarrow> fs \<times> (errno + unit)" where
  "mkdirs s p =
     (if p = [] then (s, Inl ENOENT)
      else
        (case walk s max_hops (start s p) (map (\<lambda>y. (y, True)) (components p)) of
           (s', Inl e) \<Rightarrow> (s', Inl e)
         | (s', Inr c) \<Rightarrow> if lookup s' c = Some Dir then (s', Inr ()) else (s', Inl EEXIST)))"

text \<open>
  Where a path names an entry without following a link in its last place: the parent is
  resolved, the last name is looked up by the caller. A path that ends in a slash names a
  directory: there the last name is resolved too, and a missing name or a file is an
  error.
\<close>

definition locate :: "fs \<Rightarrow> string \<Rightarrow> errno + cpath" where
  "locate s p =
     (let segs = segments p in
      if p = [] then Inl ENOENT
      else if segs = [] then Inr []
      else if last p = CHR ''/'' then resolve s p
      else
        (case snd (walk s max_hops (start s p) (map (\<lambda>y. (y, False)) (butlast segs))) of
           Inl e \<Rightarrow> Inl e
         | Inr c \<Rightarrow>
             if lookup s c \<noteq> Some Dir then Inl ENOTDIR
             else if last segs = ''.'' then Inr c
             else if last segs = ''..'' then Inr (butlast c)
             else Inr (c @ [last segs])))"

text \<open>\<open>readlink(p)\<close>: the target of the link at \<open>p\<close>; an error when there is no link.\<close>

definition readlink :: "fs \<Rightarrow> string \<Rightarrow> errno + string" where
  "readlink s p =
     (case locate s p of
        Inl e \<Rightarrow> Inl e
      | Inr c \<Rightarrow>
          (case lookup s c of
             None \<Rightarrow> Inl ENOENT
           | Some (Lnk t) \<Rightarrow> Inr t
           | Some _ \<Rightarrow> Inl EINVAL))"

text \<open>\<open>link(existing, new)\<close>: a second name for what \<open>existing\<close> names.\<close>

definition link :: "fs \<Rightarrow> string \<Rightarrow> string \<Rightarrow> fs \<times> (errno + unit)" where
  "link s existing new =
     (case locate s existing of
        Inl e \<Rightarrow> (s, Inl e)
      | Inr c \<Rightarrow>
          (case lookup s c of
             None \<Rightarrow> (s, Inl ENOENT)
           | Some Dir \<Rightarrow> (s, Inl EPERM)
           | Some n \<Rightarrow>
               (case locate s new of
                  Inl e \<Rightarrow> (s, Inl e)
                | Inr d \<Rightarrow>
                    if lookup s d \<noteq> None then (s, Inl EEXIST)
                    else (s\<lparr>nodes := (nodes s)(d \<mapsto> n)\<rparr>, Inr ()))))"

text \<open>\<open>symlink(target, p)\<close>: a new link at \<open>p\<close> holding \<open>target\<close> as it is.\<close>

definition symlink :: "fs \<Rightarrow> string \<Rightarrow> string \<Rightarrow> fs \<times> (errno + unit)" where
  "symlink s target p =
     (if target = [] then (s, Inl ENOENT)
      else
        (case locate s p of
           Inl e \<Rightarrow> (s, Inl e)
         | Inr d \<Rightarrow>
             if lookup s d \<noteq> None then (s, Inl EEXIST)
             else (s\<lparr>nodes := (nodes s)(d \<mapsto> Lnk target)\<rparr>, Inr ())))"

text \<open>\<open>utimes(p, atime, mtime)\<close>; access times are not part of the state.\<close>

definition utimes :: "fs \<Rightarrow> string \<Rightarrow> int \<Rightarrow> fs \<times> (errno + unit)" where
  "utimes s p t =
     (case resolve s p of
        Inl e \<Rightarrow> (s, Inl e)
      | Inr c \<Rightarrow>
          (case lookup s c of
             None \<Rightarrow> (s, Inl ENOENT)
           | Some (Reg i) \<Rightarrow>
               (case inodes s i of
                  None \<Rightarrow> (s, Inl ENOENT)
                | Some f \<Rightarrow> (s\<lparr>inodes := (inodes s)(i \<mapsto> f\<lparr>modified := t\<rparr>)\<rparr>, Inr ()))
           | Some _ \<Rightarrow> (s\<lparr>dir_modified := (dir_modified s)(c \<mapsto> t)\<rparr>, Inr ())))"

text \<open>
  Opening a path for writing with creation follows a link in the last place, also a
  dangling one: the result is where the file is or will be. A path that ends in a slash
  cannot be opened for writing and nothing is created.
\<close>

fun open_target :: "fs \<Rightarrow> nat \<Rightarrow> cpath \<Rightarrow> string \<Rightarrow> errno + cpath" where
  "open_target s h cur p =
     (let segs = segments p in
      if p = [] then Inl ENOENT
      else if segs = [] \<or> last p = CHR ''/'' then Inl EISDIR
      else
        (case snd (walk s max_hops (if isAbsolute p then [] else cur)
                     (map (\<lambda>y. (y, False)) (butlast segs))) of
           Inl e \<Rightarrow> Inl e
         | Inr c \<Rightarrow>
             if lookup s c \<noteq> Some Dir then Inl ENOTDIR
             else if last segs = ''.'' \<or> last segs = ''..'' then Inl EISDIR
             else
               (case nodes s (c @ [last segs]) of
                  None \<Rightarrow> Inr (c @ [last segs])
                | Some Dir \<Rightarrow> Inl EISDIR
                | Some (Reg i) \<Rightarrow> Inr (c @ [last segs])
                | Some (Lnk t) \<Rightarrow> if h = 0 then Inl ELOOP else open_target s (h - 1) c t)))"

text \<open>
  \<open>pipeline(input, createWriteStream(p, {mode}))\<close> with the whole content of the input:
  the file is created with the mode, or an existing one is truncated and keeps its mode.
\<close>

definition writeStream :: "fs \<Rightarrow> string \<Rightarrow> nat \<Rightarrow> string \<Rightarrow> fs \<times> (errno + unit)" where
  "writeStream s p m bytes =
     (case open_target s max_hops (cwd s) p of
        Inl e \<Rightarrow> (s, Inl e)
      | Inr c \<Rightarrow>
          (case lookup s c of
             None \<Rightarrow>
               (s\<lparr>nodes := (nodes s)(c \<mapsto> Reg (next_ino s)),
                  inodes := (inodes s)(next_ino s \<mapsto>
                              \<lparr>content = bytes, perm = m, modified = 0\<rparr>),
                  next_ino := Suc (next_ino s)\<rparr>, Inr ())
           | Some (Reg i) \<Rightarrow>
               (case inodes s i of
                  None \<Rightarrow> (s, Inl ENOENT)
                | Some f \<Rightarrow> (s\<lparr>inodes := (inodes s)(i \<mapsto> f\<lparr>content := bytes\<rparr>)\<rparr>, Inr ()))
           | Some _ \<Rightarrow> (s, Inl EISDIR)))"

text \<open>
  No link has the empty target: \<open>symlink\<close> refuses to make one, as the operating system
  does, and no operation below makes one out of a state that has none.
\<close>

definition links_have_targets :: "fs \<Rightarrow> bool" where
  "links_have_targets s \<longleftrightarrow> (\<forall>c. nodes s c \<noteq> Some (Lnk []))"

section \<open>The writer (\<open>src/index.ts\<close>)\<close>

subsection \<open>\<open>safeMakeDir\<close>\<close>

text \<open>
  The \<open>catch\<close> takes every failure of \<open>realpath(dir)\<close> and asks the parent instead. The
  file system is threaded through: the inner call may have made directories.
\<close>

function safeMakeDir :: "fs \<Rightarrow> string \<Rightarrow> string \<Rightarrow> fs \<times> (error + string)" where
  "safeMakeDir s dir realOutputPath =
     (case (case realpath s dir of
              Inr r \<Rightarrow> (s, Inr r)
            | Inl e \<Rightarrow> safeMakeDir s (dirname dir) realOutputPath) of
        (s1, Inl err) \<Rightarrow> (s1, Inl err)
      | (s1, Inr realParentPath) \<Rightarrow>
          if \<not> startsWith realParentPath realOutputPath
          then (s1, Inl (Escape ''Refusing to create a directory outside the output path.''))
          else
            (case mkdirs s1 dir of
               (s2, Inl e) \<Rightarrow> (s2, Inl (IOError e))
             | (s2, Inr _) \<Rightarrow>
                 (case realpath s2 dir of
                    Inl e \<Rightarrow> (s2, Inl (IOError e))
                  | Inr r \<Rightarrow> (s2, Inr r))))"
  by pat_completeness auto

text \<open>
  Lines 39 to 44 on their own: the check of \<open>realParentPath\<close>, then \<open>mkdirs\<close> and the
  final \<open>realpath\<close>, from the state in which \<open>realParentPath\<close> was found.
\<close>

definition safeMakeDir_tail :: "fs \<Rightarrow> string \<Rightarrow> string \<Rightarrow> string \<Rightarrow> fs \<times> (error + string)" where
  "safeMakeDir_tail s1 dir realOutputPath realParentPath =
     (if \<not> startsWith realParentPath realOutputPath
      then (s1, Inl (Escape ''Refusing to create a directory outside the output path.''))
      else
        (case mkdirs s1 dir of
           (s2, Inl e) \<Rightarrow> (s2, Inl (IOError e))
         | (s2, Inr _) \<Rightarrow>
             (case realpath s2 dir of
                Inl e \<Rightarrow> (s2, Inl (IOError e))
              | Inr r \<Rightarrow> (s2, Inr r))))"

text \<open>How many times \<open>safeMakeDir\<close> calls itself, by the same recursion.\<close>

function safeMakeDir_depth :: "fs \<Rightarrow> string \<Rightarrow> nat" where
  "safeMakeDir_depth s dir =
     (case realpath s dir of
        Inr r \<Rightarrow> 0
      | Inl e \<Rightarrow> Suc (safeMakeDir_depth s (dirname dir)))"
  by pat_completeness auto

subsection \<open>\<open>preventWritingThroughSymlink\<close>\<close>

text \<open>
  A failing \<open>readlink\<close> returns at once. The test after it is JavaScript truthiness of
  the target string: only a non-empty target throws.
\<close>

definition preventWritingThroughSymlink :: "fs \<Rightarrow> string \<Rightarrow> error + unit" where
  "preventWritingThroughSymlink s destination =
     (case readlink s destination of
        Inl _ \<Rightarrow> Inr ()
      | Inr symlinkPointsTo \<Rightarrow>
          if symlinkPointsTo \<noteq> [] then Inl SymlinkWriteThrough else Inr ())"

subsection \<open>\<open>write\<close>\<close>

text \<open>The \<open>File\<close> of \<open>@xingrz/decompress-types\<close>, as far as \<open>write\<close> reads it.\<close>

datatype ftype = FileT | DirectoryT | LinkT | SymlinkT

record File =
  path :: string
  ftype :: ftype
  mode :: nat
  mtime :: int
  linkname :: "string option"

text \<open>
  A callback of JavaScript may change the object it is given. \<open>map_opt\<close> therefore returns
  two values: its argument as the call leaves it and the object it returns (the same value
  twice for a \<open>map\<close> that changes its argument and returns it). \<open>filter_opt\<close> only reads.
\<close>

record options =
  filter_opt :: "(File \<Rightarrow> bool) option"
  map_opt :: "(File \<Rightarrow> File \<times> File) option"
  strip :: nat

text \<open>
  What became of the \<open>Readable\<close>: left as it was given, switched to flowing by
  \<open>resume()\<close> (its data discarded), or piped to the end into the destination.
\<close>

datatype stream_state = Untouched | Resumed | Piped

text \<open>
  What a call leaves behind: the promise's result, the file system, the object the caller
  passed as \<open>file\<close>, and the stream.
\<close>

record outcome =
  result :: "error + unit"
  fs_after :: fs
  file_after :: File
  input_after :: stream_state

text \<open>Lines 106 to 114: the two kinds of link. \<open>win32\<close> is \<open>process.platform === 'win32'\<close>.\<close>

definition makeLink :: "bool \<Rightarrow> File \<Rightarrow> string \<Rightarrow> string \<Rightarrow> fs \<Rightarrow> fs \<times> (error + unit)" where
  "makeLink win32 f output dest s =
     (if ftype f = LinkT \<or> (ftype f = SymlinkT \<and> win32) then
        (case linkname f of
           None \<Rightarrow> (s, Inl TypeError)
         | Some l \<Rightarrow>
             (case link s (join [output, l]) dest of
                (s', Inl e) \<Rightarrow> (s', Inl (IOError e))
              | (s', Inr _) \<Rightarrow> (s', Inr ())))
      else if ftype f = SymlinkT then
        (case linkname f of
           None \<Rightarrow> (s, Inl TypeError)
         | Some l \<Rightarrow>
             (case symlink s l dest of
                (s', Inl e) \<Rightarrow> (s', Inl (IOError e))
              | (s', Inr _) \<Rightarrow> (s', Inr ())))
      else (s, Inr ()))"

text \<open>Lines 116 to 119: the content and the modification time of a file.\<close>

definition writeContent ::
  "File \<Rightarrow> string option \<Rightarrow> string \<Rightarrow> fs \<Rightarrow> fs \<times> stream_state \<times> (error + unit)" where
  "writeContent f input dest s =
     (case input of
        None \<Rightarrow> (s, Untouched, Inr ())
      | Some bytes \<Rightarrow>
          if ftype f \<noteq> FileT then (s, Untouched, Inr ())
          else
            (case writeStream s dest (mode f) bytes of
               (s', Inl e) \<Rightarrow> (s', Untouched, Inl (IOError e))
             | (s', Inr _) \<Rightarrow>
                 (case utimes s' dest (mtime f) of
                    (s'', Inl e) \<Rightarrow> (s'', Piped, Inl (IOError e))
                  | (s'', Inr _) \<Rightarrow> (s'', Piped, Inr ()))))"

text \<open>Lines 82 to 119: everything after the options have been applied.\<close>

definition writeEntry ::
  "bool \<Rightarrow> File \<Rightarrow> string option \<Rightarrow> string \<Rightarrow> fs \<Rightarrow> fs \<times> stream_state \<times> (error + unit)" where
  "writeEntry win32 f input output s =
     (let dest = join [output, path f] in
      case mkdirs s output of
        (s0, Inl e) \<Rightarrow> (s0, Untouched, Inl (IOError e))
      | (s0, Inr _) \<Rightarrow>
      (case realpath s0 output of
        Inl e \<Rightarrow> (s0, Untouched, Inl (IOError e))
      | Inr realOutputPath \<Rightarrow>
      if ftype f = DirectoryT then
        (case safeMakeDir s0 dest realOutputPath of
           (s1, Inl err) \<Rightarrow> (s1, Untouched, Inl err)
         | (s1, Inr _) \<Rightarrow>
             (case utimes s1 dest (mtime f) of
                (s2, Inl e) \<Rightarrow> (s2, Untouched, Inl (IOError e))
              | (s2, Inr _) \<Rightarrow> (s2, Untouched, Inr ())))
      else
      (case safeMakeDir s0 (dirname dest) realOutputPath of
        (s1, Inl err) \<Rightarrow> (s1, Untouched, Inl err)
      | (s1, Inr _) \<Rightarrow>
      (case (if ftype f = FileT then preventWritingThroughSymlink s1 dest else Inr ()) of
        Inl err \<Rightarrow> (s1, Untouched, Inl err)
      | Inr _ \<Rightarrow>
      (case realpath s1 (dirname dest) of
        Inl e \<Rightarrow> (s1, Untouched, Inl (IOError e))
      | Inr realDestinationDir \<Rightarrow>
      if \<not> startsWith realDestinationDir realOutputPath
      then (s1, Untouched,
            Inl (Escape (''Refusing to write outside output directory: '' @ realDestinationDir)))
      else
      (case makeLink win32 f output dest s1 of
        (s2, Inl err) \<Rightarrow> (s2, Untouched, Inl err)
      | (s2, Inr _) \<Rightarrow> writeContent f input dest s2))))))"

text \<open>
  The exported function. \<open>file.path = stripDirs(...)\<close> assigns to the caller's object;
  the early return for \<open>'.'\<close> leaves the stream alone, the one for a rejecting filter calls
  \<open>input.resume()\<close>.
\<close>

definition write' ::
  "bool \<Rightarrow> File \<Rightarrow> string option \<Rightarrow> string \<Rightarrow> options \<Rightarrow> fs \<Rightarrow> outcome" where
  "write' win32 f input output opts s =
     (case (if strip opts > 0
            then (case stripDirs (path f) (strip opts) of
                    Inl e \<Rightarrow> Inl e
                  | Inr p \<Rightarrow> Inr (f\<lparr>path := p\<rparr>))
            else Inr f) of
        Inl e \<Rightarrow> \<lparr>result = Inl e, fs_after = s, file_after = f, input_after = Untouched\<rparr>
      | Inr f1 \<Rightarrow>
          if strip opts > 0 \<and> path f1 = ''.''
          then \<lparr>result = Inr (), fs_after = s, file_after = f1, input_after = Untouched\<rparr>
          else if (case filter_opt opts of None \<Rightarrow> False | Some keep \<Rightarrow> \<not> keep f1)
          then \<lparr>result = Inr (), fs_after = s, file_after = f1,
                input_after = (if input \<noteq> None then Resumed else Untouched)\<rparr>
          else
            (case (case map_opt opts of None \<Rightarrow> (f1, f1) | Some m \<Rightarrow> m f1) of
               (caller, f2) \<Rightarrow>
                 (case writeEntry win32 f2 input output s of
                    (s', st, r) \<Rightarrow>
                      \<lparr>result = r, fs_after = s', file_after = caller, input_after = st\<rparr>)))"

text \<open>\<open>write(file, input, output)\<close> without options.\<close>

definition no_options :: options where
  "no_options = \<lparr>filter_opt = None, map_opt = None, strip = 0\<rparr>"

section \<open>Proof devices\<close>

text \<open>The same pieces with every creation flag cleared: the walk of \<open>realpath\<close>.\<close>

definition untag :: "(string \<times> bool) list \<Rightarrow> (string \<times> bool) list" where
  "untag xs = map (\<lambda>(x, _). (x, False)) xs"

section \<open>Example file systems and entries\<close>


text \<open>An output directory \<open>/out\<close> and nothing else.\<close>

definition fs_out :: fs where
  "fs_out = \<lparr>nodes = [[''out''] \<mapsto> Dir], inodes = Map.empty, dir_modified = Map.empty,
             next_ino = 0, cwd = []\<rparr>"

definition file_a :: File where
  "file_a = \<lparr>path = ''a'', ftype = FileT, mode = 420, mtime = 7, linkname = None\<rparr>"

definition strip1 :: options where
  "strip1 = \<lparr>filter_opt = None, map_opt = None, strip = 1\<rparr>"

definition file_deep :: File where
  "file_deep =
     \<lparr>path = ''subdir/a/test.bin'', ftype = FileT, mode = 420, mtime = 7, linkname = None\<rparr>"

text \<open>The \<open>map\<close> of the test suite: it renames its argument in place and returns it.\<close>

definition unicorn :: "File \<Rightarrow> File \<times> File" where
  "unicorn f = (f\<lparr>path := ''unicorn-'' @ path f\<rparr>, f\<lparr>path := ''unicorn-'' @ path f\<rparr>)"

definition strip1_unicorn :: options where
  "strip1_unicorn = \<lparr>filter_opt = None, map_opt = Some unicorn, strip = 1\<rparr>"

text \<open>
  An output directory \<open>/out\<close> beside a directory \<open>/out-evil\<close>, and an archive of two
  entries: a link \<open>l\<close> to the sibling, then a file \<open>l/x\<close>.
\<close>

definition fs_sibling :: fs where
  "fs_sibling =
     \<lparr>nodes = [[''out''] \<mapsto> Dir, [''out-evil''] \<mapsto> Dir], inodes = Map.empty,
      dir_modified = Map.empty, next_ino = 0, cwd = []\<rparr>"

definition entry_link_sibling :: File where
  "entry_link_sibling =
     \<lparr>path = ''l'', ftype = SymlinkT, mode = 420, mtime = 7, linkname = Some ''../out-evil''\<rparr>"

definition entry_through_link :: File where
  "entry_through_link =
     \<lparr>path = ''l/x'', ftype = FileT, mode = 420, mtime = 7, linkname = None\<rparr>"

definition fs_sibling_linked :: fs where
  "fs_sibling_linked =
     fs_after (write' False entry_link_sibling None ''/out'' no_options fs_sibling)"










text \<open>An output directory \<open>/out\<close> beside a directory \<open>/etc\<close>.\<close>

definition fs_etc :: fs where
  "fs_etc =
     \<lparr>nodes = [[''out''] \<mapsto> Dir, [''etc''] \<mapsto> Dir], inodes = Map.empty,
      dir_modified = Map.empty, next_ino = 0, cwd = []\<rparr>"

section \<open>Unfolding the file system on concrete states\<close>

lemmas fs_defs = realpath_def resolve_def start_def isAbsolute_def max_hops_def render_def
  mkdirs_def lookup_def locate_def segments_def readlink_def link_def symlink_def utimes_def
  writeStream_def

lemmas path_defs = join_def normalize_def dirname_def startsWith_def stripDirs_def
  isAbsoluteWin32_def isPathSeparatorWin32_def isWindowsDeviceRoot_def

lemmas write_defs = write'_def writeEntry_def makeLink_def writeContent_def
  preventWritingThroughSymlink_def no_options_def

section \<open>Termination of \<open>safeMakeDir\<close>\<close>

lemma realpath_dot: "realpath s ''.'' = Inr (render (cwd s))"
  by (simp add: realpath_def resolve_def start_def isAbsolute_def)

lemma realpath_root: "realpath s ''/'' = Inr ''/''"
  by (simp add: realpath_def resolve_def start_def isAbsolute_def render_def)

text \<open>
  The measure: the two paths that always resolve count 0, \<open>//\<close> counts 1, every other
  path its length plus 2.
\<close>

definition dir_measure :: "string \<Rightarrow> nat" where
  "dir_measure p =
     (if p = ''.'' \<or> p = ''/'' then 0 else if p = ''//'' then 1 else Suc (Suc (length p)))"

lemma dropWhile2_length:
  "dropWhile Q (dropWhile P xs) = y # front \<Longrightarrow> length front < length xs"
proof -
  assume a: "dropWhile Q (dropWhile P xs) = y # front"
  have "length (dropWhile Q (dropWhile P xs)) \<le> length xs"
    by (meson length_dropWhile_le order_trans)
  with a show ?thesis by simp
qed

lemma dirname_cases:
  "dirname (c # rest) =
     (case dropWhile (\<lambda>x. x \<noteq> CHR ''/'') (dropWhile (\<lambda>x. x = CHR ''/'') (rev rest)) of
        [] \<Rightarrow> (if c = CHR ''/'' then ''/'' else ''.'')
      | _ # front \<Rightarrow> (if c = CHR ''/'' \<and> front = [] then ''//'' else c # rev front))"
  by (simp add: dirname_def)

lemma dirname_measure:
  assumes "p \<noteq> ''.''" "p \<noteq> ''/''" "p \<noteq> ''//''"
  shows "dir_measure (dirname p) < dir_measure p"
proof (cases p)
  case Nil
  then show ?thesis by (simp add: dirname_def dir_measure_def)
next
  case (Cons c rest)
  have big: "dir_measure p = Suc (Suc (length p))"
    using assms by (simp add: dir_measure_def)
  define D where "D = dropWhile (\<lambda>x. x \<noteq> CHR ''/'') (dropWhile (\<lambda>x. x = CHR ''/'') (rev rest))"
  have dn: "dirname p = (case D of [] \<Rightarrow> (if c = CHR ''/'' then ''/'' else ''.'')
      | _ # front \<Rightarrow> (if c = CHR ''/'' \<and> front = [] then ''//'' else c # rev front))"
    unfolding D_def Cons by (rule dirname_cases)
  show ?thesis
  proof (cases D)
    case Nil
    then have "dir_measure (dirname p) = 0" by (simp add: dn dir_measure_def)
    then show ?thesis using big by simp
  next
    case (Cons y front)
    then have "length front < length (rev rest)"
      unfolding D_def by (rule dropWhile2_length)
    then have len: "length (c # rev front) < length p" using \<open>p = c # rest\<close> by simp
    have "dir_measure (c # rev front) \<le> Suc (Suc (length (c # rev front)))"
      by (simp only: dir_measure_def split: if_split) simp
    moreover have "dir_measure ''//'' = 1" by (simp add: dir_measure_def)
    moreover have "dirname p = ''//'' \<or> dirname p = c # rev front"
      using Cons by (simp add: dn)
    ultimately show ?thesis using big len by auto
  qed
qed

lemma dirname_measure_fail:
  "realpath s p = Inl e \<Longrightarrow> dir_measure (dirname p) < dir_measure p"
proof (cases "p = ''//''")
  case True
  then show ?thesis by (simp add: dirname_def dir_measure_def)
next
  case False
  assume "realpath s p = Inl e"
  then have "p \<noteq> ''.''" "p \<noteq> ''/''" using realpath_dot realpath_root by auto
  then show ?thesis using False dirname_measure by blast
qed

termination safeMakeDir
  apply (relation "measure (\<lambda>(s, dir, root). dir_measure dir)")
  subgoal by simp
  subgoal for s dir realOutputPath e  
    using dirname_measure_fail[of s dir e] by simp
  done

termination safeMakeDir_depth
  apply (relation "measure (\<lambda>(s, dir). dir_measure dir)")
  subgoal by simp
  subgoal for s dir e
    using dirname_measure_fail[of s dir e] by simp
  done


declare safeMakeDir.simps [simp del]

declare safeMakeDir_depth.simps [simp del]

lemma safeMakeDir_hit:
  "realpath s dir = Inr r \<Longrightarrow> safeMakeDir s dir root = safeMakeDir_tail s dir root r"
  by (subst safeMakeDir.simps) (simp add: safeMakeDir_tail_def)

lemma safeMakeDir_miss:
  "realpath s dir = Inl e \<Longrightarrow>
   safeMakeDir s dir root =
     (case safeMakeDir s (dirname dir) root of
        (s1, Inl err) \<Rightarrow> (s1, Inl err)
      | (s1, Inr rp) \<Rightarrow> safeMakeDir_tail s1 dir root rp)"
  by (subst safeMakeDir.simps)
    (simp add: safeMakeDir_tail_def split: prod.splits sum.splits)


section \<open>Path resolution\<close>

lemma untag_simps [simp]:
  "untag [] = []" "untag ((x, mk) # xs) = (x, False) # untag xs"
  "untag (xs @ ys) = untag xs @ untag ys"
  "untag (map (\<lambda>y. (y, b)) zs) = map (\<lambda>y. (y, False)) zs"
  by (simp_all add: untag_def)

lemma untag_Nil_iff [simp]: "untag xs = [] \<longleftrightarrow> xs = []"
  by (simp add: untag_def)

lemma walk_induct' [case_names Nil Skip Up Missing Create Dir Reg Loop Empty Link]:
  fixes P :: "fs \<Rightarrow> nat \<Rightarrow> cpath \<Rightarrow> (string \<times> bool) list \<Rightarrow> bool"
  assumes "\<And>s h cur. P s h cur []"
    and "\<And>s h cur x mk rest. x = [] \<or> x = ''.'' \<Longrightarrow> P s h cur rest \<Longrightarrow> P s h cur ((x, mk) # rest)"
    and "\<And>s h cur x mk rest. x = ''..'' \<Longrightarrow> P s h (butlast cur) rest \<Longrightarrow> P s h cur ((x, mk) # rest)"
    and "\<And>s h cur x mk rest. x \<noteq> [] \<Longrightarrow> x \<noteq> ''.'' \<Longrightarrow> x \<noteq> ''..'' \<Longrightarrow>
           nodes s (cur @ [x]) = None \<Longrightarrow> \<not> mk \<Longrightarrow> P s h cur ((x, mk) # rest)"
    and "\<And>s h cur x mk rest. x \<noteq> [] \<Longrightarrow> x \<noteq> ''.'' \<Longrightarrow> x \<noteq> ''..'' \<Longrightarrow>
           nodes s (cur @ [x]) = None \<Longrightarrow> mk \<Longrightarrow>
           P (s\<lparr>nodes := (nodes s)((cur @ [x]) \<mapsto> Dir)\<rparr>) h (cur @ [x]) rest \<Longrightarrow>
           P s h cur ((x, mk) # rest)"
    and "\<And>s h cur x mk rest. x \<noteq> [] \<Longrightarrow> x \<noteq> ''.'' \<Longrightarrow> x \<noteq> ''..'' \<Longrightarrow>
           nodes s (cur @ [x]) = Some Dir \<Longrightarrow> P s h (cur @ [x]) rest \<Longrightarrow>
           P s h cur ((x, mk) # rest)"
    and "\<And>s h cur x mk rest i. x \<noteq> [] \<Longrightarrow> x \<noteq> ''.'' \<Longrightarrow> x \<noteq> ''..'' \<Longrightarrow>
           nodes s (cur @ [x]) = Some (Reg i) \<Longrightarrow> P s h cur ((x, mk) # rest)"
    and "\<And>s h cur x mk rest t. x \<noteq> [] \<Longrightarrow> x \<noteq> ''.'' \<Longrightarrow> x \<noteq> ''..'' \<Longrightarrow>
           nodes s (cur @ [x]) = Some (Lnk t) \<Longrightarrow> h = 0 \<Longrightarrow> P s h cur ((x, mk) # rest)"
    and "\<And>s h cur x mk rest t. x \<noteq> [] \<Longrightarrow> x \<noteq> ''.'' \<Longrightarrow> x \<noteq> ''..'' \<Longrightarrow>
           nodes s (cur @ [x]) = Some (Lnk t) \<Longrightarrow> h \<noteq> 0 \<Longrightarrow> t = [] \<Longrightarrow>
           P s h cur ((x, mk) # rest)"
    and "\<And>s h cur x mk rest t. x \<noteq> [] \<Longrightarrow> x \<noteq> ''.'' \<Longrightarrow> x \<noteq> ''..'' \<Longrightarrow>
           nodes s (cur @ [x]) = Some (Lnk t) \<Longrightarrow> h \<noteq> 0 \<Longrightarrow> t \<noteq> [] \<Longrightarrow>
           P s (h - 1) (if isAbsolute t then [] else cur)
             (map (\<lambda>y. (y, False)) (components t) @ rest) \<Longrightarrow>
           P s h cur ((x, mk) # rest)"
  shows "P s h cur xs"
proof (induction s h cur xs rule: walk.induct)
  case (1 s h cur)
  show ?case by (rule assms(1))
next
  case (2 s h cur x mk rest)
  show ?case
  proof (cases "x = [] \<or> x = ''.''")
    case True
    show ?thesis by (rule assms(2)[OF True 2(1)[OF True]])
  next
    case nskip: False
    then have n1: "x \<noteq> []" and n2: "x \<noteq> ''.''" by simp_all
    show ?thesis
    proof (cases "x = ''..''")
      case True
      show ?thesis by (rule assms(3)[OF True 2(2)[OF nskip True]])
    next
      case nup: False
      show ?thesis
      proof (cases "nodes s (cur @ [x])")
        case None
        show ?thesis
        proof (cases mk)
          case True
          show ?thesis
            by (rule assms(5)[OF n1 n2 nup None True 2(3)[OF nskip nup None True]])
        next
          case False
          show ?thesis by (rule assms(4)[OF n1 n2 nup None False])
        qed
      next
        case (Some n)
        show ?thesis
        proof (cases n)
          case Dir
          have e: "nodes s (cur @ [x]) = Some Dir" using Some Dir by simp
          show ?thesis by (rule assms(6)[OF n1 n2 nup e 2(4)[OF nskip nup Some Dir]])
        next
          case (Reg i)
          have e: "nodes s (cur @ [x]) = Some (Reg i)" using Some Reg by simp
          show ?thesis by (rule assms(7)[OF n1 n2 nup e])
        next
          case (Lnk t)
          have e: "nodes s (cur @ [x]) = Some (Lnk t)" using Some Lnk by simp
          show ?thesis
          proof (cases "h = 0")
            case True
            show ?thesis by (rule assms(8)[OF n1 n2 nup e True])
          next
            case hpos: False
            show ?thesis
            proof (cases "t = []")
              case True
              show ?thesis by (rule assms(9)[OF n1 n2 nup e hpos True])
            next
              case False
              show ?thesis
                by (rule assms(10)[OF n1 n2 nup e hpos False
                      2(5)[OF nskip nup Some Lnk hpos False]])
            qed
          qed
        qed
      qed
    qed
  qed
qed

lemma walk_untag_fs: "fst (walk s h cur (untag xs)) = s"
  by (induction s h cur xs rule: walk_induct') simp_all



lemma resolve_fs_unchanged:
  "walk s h cur (map (\<lambda>y. (y, False)) xs) = (s, snd (walk s h cur (map (\<lambda>y. (y, False)) xs)))"
  using walk_untag_fs[of s h cur "map (\<lambda>y. (y, True)) xs"]
  by (metis prod.collapse untag_simps(4))


lemma realpath_resolve: "realpath s p = Inr r \<longleftrightarrow> (\<exists>c. resolve s p = Inr c \<and> r = render c)"
  by (auto simp: realpath_def split: sum.splits)






section \<open>The writer on a resolved parent\<close>





section \<open>The parent of a path has fewer segments\<close>

lemma components_not_Nil [simp]: "components p \<noteq> []"
  by (induction p) (auto split: list.splits)

lemma components_append_slash:
  "components (a @ CHR ''/'' # b) = components a @ components b"
proof (induction a)
  case Nil
  show ?case by simp
next
  case (Cons c a)
  obtain x xs where cx: "components a = x # xs" by (cases "components a") simp_all
  show ?case using Cons cx by simp
qed

lemma segments_append_slash:
  "segments (a @ CHR ''/'' # b) = segments a @ segments b"
  by (simp add: segments_def components_append_slash)

lemma segments_nonslash_head:
  assumes "q \<noteq> []" "hd q \<noteq> CHR ''/''"
  shows "segments q \<noteq> []"
proof -
  obtain c cs where q: "q = c # cs" using assms(1) by (cases q) auto
  obtain x xs where cx: "components cs = x # xs" by (cases "components cs") simp_all
  show ?thesis using assms(2) q cx by (simp add: segments_def)
qed

lemma dirname_split:
  assumes "dropWhile (\<lambda>x. x \<noteq> CHR ''/'') (dropWhile (\<lambda>x. x = CHR ''/'') (rev rest)) = y # front"
  shows "\<exists>q. rest = rev front @ CHR ''/'' # q \<and> q \<noteq> [] \<and> hd q \<noteq> CHR ''/''"
proof -
  define R where "R = rev rest"
  define A where "A = takeWhile (\<lambda>x. x = CHR ''/'') R"
  define E where "E = dropWhile (\<lambda>x. x = CHR ''/'') R"
  define B where "B = takeWhile (\<lambda>x. x \<noteq> CHR ''/'') E"
  have D: "dropWhile (\<lambda>x. x \<noteq> CHR ''/'') E = y # front"
    using assms by (simp add: E_def R_def)
  have RE: "R = A @ E" by (simp add: A_def E_def)
  have EB: "E = B @ y # front" using D takeWhile_dropWhile_id[of "\<lambda>x. x \<noteq> CHR ''/''" E]
    by (simp add: B_def)
  have y: "y = CHR ''/''" using D hd_dropWhile[of "\<lambda>x. x \<noteq> CHR ''/''" E] by auto
  have Ene: "E \<noteq> []" using EB by auto
  then have "hd E \<noteq> CHR ''/''" using hd_dropWhile[of "\<lambda>x. x = CHR ''/''" R] by (simp add: E_def)
  then have Bne: "B \<noteq> []" using Ene by (cases E) (auto simp: B_def)
  have Bns: "\<forall>x \<in> set B. x \<noteq> CHR ''/''" using set_takeWhileD by (fastforce simp: B_def)
  have "rest = rev R" by (simp add: R_def)
  also have "\<dots> = rev front @ CHR ''/'' # (rev B @ rev A)" by (simp add: RE EB y)
  finally have r: "rest = rev front @ CHR ''/'' # (rev B @ rev A)" .
  have "hd (rev B @ rev A) = last B" using Bne by (simp add: hd_rev)
  then have "hd (rev B @ rev A) \<noteq> CHR ''/''" using Bne Bns by auto
  then show ?thesis using r Bne by blast
qed

lemma dirname_not_Nil [simp]: "dirname p \<noteq> []"
  by (auto simp: dirname_def split: list.splits)

lemma dirname_segments:
  assumes "p \<noteq> []"
  shows "dirname p = ''/'' \<or> dirname p = ''.'' \<or>
         length (segments (dirname p)) < length (segments p)"
proof -
  obtain c rest where p: "p = c # rest" using assms by (cases p) auto
  define D where "D = dropWhile (\<lambda>x. x \<noteq> CHR ''/'') (dropWhile (\<lambda>x. x = CHR ''/'') (rev rest))"
  have dn: "dirname p = (case D of [] \<Rightarrow> (if c = CHR ''/'' then ''/'' else ''.'')
      | _ # front \<Rightarrow> (if c = CHR ''/'' \<and> front = [] then ''//'' else c # rev front))"
    unfolding D_def p by (rule dirname_cases)
  show ?thesis
  proof (cases D)
    case Nil
    then show ?thesis by (simp add: dn)
  next
    case (Cons y front)
    then have "dropWhile (\<lambda>x. x \<noteq> CHR ''/'') (dropWhile (\<lambda>x. x = CHR ''/'') (rev rest)) = y # front"
      by (simp only: D_def)
    then obtain q where q: "rest = rev front @ CHR ''/'' # q" "q \<noteq> []" "hd q \<noteq> CHR ''/''"
      using dirname_split by blast
    have "p = (c # rev front) @ CHR ''/'' # q" by (simp add: p q(1))
    then have sp: "segments p = segments (c # rev front) @ segments q"
      by (simp only: segments_append_slash)
    have qs: "segments q \<noteq> []" using q(2,3) by (rule segments_nonslash_head)
    have dn2: "dirname p = (if c = CHR ''/'' \<and> front = [] then ''//'' else c # rev front)"
      by (simp add: dn Cons)
    have "length (segments (dirname p)) \<le> length (segments (c # rev front))"
      by (simp add: dn2 segments_def)
    moreover have "length (segments p) = length (segments (c # rev front)) + length (segments q)"
      by (simp only: sp length_append)
    moreover have "0 < length (segments q)" using qs by simp
    ultimately show ?thesis by linarith
  qed
qed

lemma walk_all_empty:
  "\<forall>x \<in> set xs. fst x = [] \<Longrightarrow> walk s h cur xs = (s, Inr cur)"
  by (induction xs) auto

lemma no_segments_absolute:
  assumes "p \<noteq> []" "segments p = []"
  shows "isAbsolute p"
proof -
  obtain c cs where p: "p = c # cs" using assms(1) by (cases p) auto
  obtain x xs where cx: "components cs = x # xs" by (cases "components cs") simp_all
  show ?thesis using assms(2) p cx by (auto simp: segments_def isAbsolute_def split: if_splits)
qed

lemma realpath_no_segments:
  assumes "p \<noteq> []" "segments p = []"
  shows "realpath s p = Inr ''/''"
proof -
  have e: "\<forall>x \<in> set (components p). x = []"
    using assms(2) by (auto simp: segments_def filter_empty_conv)
  have "walk s max_hops [] (map (\<lambda>y. (y, False)) (components p)) = (s, Inr [])"
    by (rule walk_all_empty) (use e in auto)
  then show ?thesis using assms(1) no_segments_absolute[OF assms]
    by (simp add: realpath_def resolve_def start_def render_def)
qed

lemma safeMakeDir_depth_bound:
  "safeMakeDir_depth s dir \<le> (if dir = [] then 1 else length (segments dir))"
proof (induction s dir rule: safeMakeDir_depth.induct)
  case (1 s dir)
  show ?case
  proof (cases "realpath s dir")
    case (Inr r)
    then show ?thesis by (simp add: safeMakeDir_depth.simps)
  next
    case (Inl e)
    have step: "safeMakeDir_depth s dir = Suc (safeMakeDir_depth s (dirname dir))"
      by (subst safeMakeDir_depth.simps) (simp add: Inl)
    have ih: "safeMakeDir_depth s (dirname dir) \<le> length (segments (dirname dir))"
      using 1[OF Inl] by simp
    have zero: "dirname dir = ''/'' \<or> dirname dir = ''.'' \<Longrightarrow> safeMakeDir_depth s (dirname dir) = 0"
      using realpath_root[of s] realpath_dot[of s]
      by (subst safeMakeDir_depth.simps) auto
    show ?thesis
    proof (cases "dir = []")
      case True
      then have "dirname dir = ''.''" by (simp add: dirname_def)
      then show ?thesis using step zero True by simp
    next
      case False
      have segs: "segments dir \<noteq> []" using realpath_no_segments[OF False, of s] Inl by auto
      from dirname_segments[OF False] show ?thesis
      proof (elim disjE)
        assume "dirname dir = ''/''"
        then show ?thesis using step zero False segs by (cases "segments dir") auto
      next
        assume "dirname dir = ''.''"
        then show ?thesis using step zero False segs by (cases "segments dir") auto
      next
        assume "length (segments (dirname dir)) < length (segments dir)"
        then show ?thesis using step ih False by simp
      qed
    qed
  qed
qed

section \<open>The outcomes of \<open>safeMakeDir\<close>\<close>

lemma safeMakeDir_tail_escape:
  "safeMakeDir_tail s1 dir root rp = (s', Inl (Escape m)) \<Longrightarrow> s' = s1 \<and> \<not> startsWith rp root"
  by (auto simp: safeMakeDir_tail_def split: if_splits prod.splits sum.splits)

section \<open>No operation makes a link with the empty target\<close>


lemma walk_links: "links_have_targets s \<Longrightarrow> links_have_targets (fst (walk s h cur xs))"
proof (induction s h cur xs rule: walk_induct')
  case (Create s h cur x mk rest)
  have "links_have_targets (s\<lparr>nodes := (nodes s)((cur @ [x]) \<mapsto> Dir)\<rparr>)"
    using Create.prems by (simp add: links_have_targets_def)
  then show ?case using Create by simp
qed simp_all

lemma mkdirs_links: "links_have_targets s \<Longrightarrow> links_have_targets (fst (mkdirs s p))"
proof (cases "p = []")
  case True
  assume "links_have_targets s"
  then show ?thesis using True by (simp add: mkdirs_def)
next
  case False
  assume a: "links_have_targets s"
  have "fst (mkdirs s p) = fst (walk s max_hops (start s p) (map (\<lambda>y. (y, True)) (components p)))"
    using False by (simp add: mkdirs_def split: prod.splits sum.splits)
  then show ?thesis using walk_links[OF a] by simp
qed

lemma safeMakeDir_tail_links:
  "links_have_targets s \<Longrightarrow> links_have_targets (fst (safeMakeDir_tail s dir root rp))"
  using mkdirs_links[of s dir]
  by (auto simp: safeMakeDir_tail_def split: prod.splits sum.splits)

lemma safeMakeDir_links:
  "links_have_targets s \<Longrightarrow> links_have_targets (fst (safeMakeDir s dir root))"
proof (induction s dir root rule: safeMakeDir.induct)
  case (1 s dir root)
  show ?case
  proof (cases "realpath s dir")
    case (Inr r)
    then show ?thesis using safeMakeDir_tail_links[OF 1(2)] by (simp add: safeMakeDir_hit)
  next
    case (Inl e)
    obtain s1 r1 where inner: "safeMakeDir s (dirname dir) root = (s1, r1)" by force
    have ih: "links_have_targets s1" using 1(1)[OF Inl 1(2)] inner by simp
    show ?thesis using ih safeMakeDir_tail_links[OF ih]
      by (cases r1) (simp_all add: safeMakeDir_miss[OF Inl] inner)
  qed
qed

lemma link_links: "links_have_targets s \<Longrightarrow> links_have_targets (fst (link s existing new))"
  by (auto simp: link_def links_have_targets_def lookup_def
      split: sum.splits option.splits node.splits if_splits)

lemma symlink_links: "links_have_targets s \<Longrightarrow> links_have_targets (fst (symlink s target p))"
  by (auto simp: symlink_def links_have_targets_def split: sum.splits if_splits)

lemma utimes_links: "links_have_targets s \<Longrightarrow> links_have_targets (fst (utimes s p t))"
  by (auto simp: utimes_def links_have_targets_def split: sum.splits option.splits node.splits)

lemma writeStream_links: "links_have_targets s \<Longrightarrow> links_have_targets (fst (writeStream s p m b))"
  by (auto simp: writeStream_def links_have_targets_def split: sum.splits option.splits node.splits)

lemma link_links': "links_have_targets s \<Longrightarrow> link s existing new = (s', r) \<Longrightarrow> links_have_targets s'"
  using link_links[of s existing new] by simp

lemma symlink_links': "links_have_targets s \<Longrightarrow> symlink s target p = (s', r) \<Longrightarrow> links_have_targets s'"
  using symlink_links[of s target p] by simp

lemma makeLink_links:
  "links_have_targets s \<Longrightarrow> links_have_targets (fst (makeLink win f output dest s))"
  by (auto simp: makeLink_def split: option.splits prod.splits sum.splits
      intro: link_links' symlink_links')

lemma writeContent_links:
  "links_have_targets s \<Longrightarrow> links_have_targets (fst (writeContent f input dest s))"
proof -
  assume a: "links_have_targets s"
  show ?thesis
  proof (cases "input")
    case None
    then show ?thesis using a by (simp add: writeContent_def)
  next
    case (Some bytes)
    obtain s1 r1 where w: "writeStream s dest (mode f) bytes = (s1, r1)" by force
    have l1: "links_have_targets s1" using writeStream_links[OF a, of dest "mode f" bytes] w by simp
    obtain s2 r2 where u: "utimes s1 dest (mtime f) = (s2, r2)" by force
    have l2: "links_have_targets s2" using utimes_links[OF l1, of dest "mtime f"] u by simp
    show ?thesis using a l1 l2 Some w u
      by (auto simp: writeContent_def split: sum.splits)
  qed
qed

lemma writeEntry_links:
  assumes a: "links_have_targets s"
  shows "links_have_targets (fst (writeEntry win f input output s))"
proof -
  define dest where "dest = join [output, path f]"
  obtain s0 r0 where m: "mkdirs s output = (s0, r0)" by force
  have l0: "links_have_targets s0" using mkdirs_links[OF a, of "output"] m by simp
  show ?thesis
  proof (cases r0)
    case (Inl e)
    then show ?thesis using l0 m by (simp add: writeEntry_def)
  next
    case r0: (Inr u)
    show ?thesis
    proof (cases "realpath s0 output")
      case (Inl e)
      then show ?thesis using l0 m r0 by (simp add: writeEntry_def)
    next
      case root: (Inr root)
      show ?thesis
      proof (cases "ftype f = DirectoryT")
        case True
        obtain s1 r1 where smd: "safeMakeDir s0 dest root = (s1, r1)" by force
        have l1: "links_have_targets s1" using safeMakeDir_links[OF l0, of dest root] smd by simp
        obtain s2 r2 where ut: "utimes s1 dest (mtime f) = (s2, r2)" by force
        have l2: "links_have_targets s2" using utimes_links[OF l1, of dest "mtime f"] ut by simp
        show ?thesis using l1 l2 m r0 root True smd ut
          by (cases r1; cases r2) (simp_all add: writeEntry_def dest_def[symmetric])
      next
        case False
        obtain s1 r1 where smd: "safeMakeDir s0 (dirname dest) root = (s1, r1)" by force
        have l1: "links_have_targets s1"
          using safeMakeDir_links[OF l0, of "dirname dest" root] smd by simp
        obtain s2 r2 where ml: "makeLink win f output dest s1 = (s2, r2)" by force
        have l2: "links_have_targets s2" using makeLink_links[OF l1, of win f "output" dest] ml by simp
        have l3: "links_have_targets (fst (writeContent f input dest s2))"
          by (rule writeContent_links[OF l2])
        show ?thesis using l1 l2 l3 m r0 root False smd ml
          by (cases r1; cases r2)
            (auto simp: writeEntry_def dest_def[symmetric] split: sum.splits prod.splits)
      qed
    qed
  qed
qed

lemma write_links:
  assumes "links_have_targets s"
  shows "links_have_targets (fs_after (write' win f input output opts s))"
proof (cases "if strip opts > 0
            then (case stripDirs (path f) (strip opts) of
                    Inl e \<Rightarrow> Inl e
                  | Inr p \<Rightarrow> Inr (f\<lparr>path := p\<rparr>))
            else Inr f")
  case (Inl e)
  then show ?thesis using assms by (simp add: write'_def)
next
  case (Inr f1)
  show ?thesis
  proof (cases "(strip opts > 0 \<and> path f1 = ''.'') \<or>
      (case filter_opt opts of None \<Rightarrow> False | Some keep \<Rightarrow> \<not> keep f1)")
    case True
    then show ?thesis using assms Inr by (auto simp: write'_def)
  next
    case False
    obtain caller f2 where mp: "(case map_opt opts of None \<Rightarrow> (f1, f1) | Some m \<Rightarrow> m f1) = (caller, f2)"
      by force
    obtain s' st r where we: "writeEntry win f2 input output s = (s', st, r)"
      by (metis prod_cases3)
    have "fs_after (write' win f input output opts s) = s'"
      using False Inr mp we by (auto simp: write'_def)
    then show ?thesis using writeEntry_links[OF assms, of win f2 "input" "output"] we by simp
  qed
qed

section \<open>The level at which the check fails\<close>

lemma safeMakeDir_escape_level:
  "safeMakeDir s dir root = (s', Inl (Escape m)) \<Longrightarrow>
   \<exists>k \<le> safeMakeDir_depth s dir.
      (\<forall>j < k. \<exists>e. realpath s ((dirname ^^ j) dir) = Inl e) \<and>
      ((\<exists>r. realpath s ((dirname ^^ k) dir) = Inr r \<and> \<not> startsWith r root \<and> s' = s) \<or>
       (\<exists>e rp. realpath s ((dirname ^^ k) dir) = Inl e \<and>
          safeMakeDir s (dirname ((dirname ^^ k) dir)) root = (s', Inr rp) \<and>
          \<not> startsWith rp root))"
proof (induction s dir root arbitrary: s' rule: safeMakeDir.induct)
  case (1 s dir root)
  show ?case
  proof (cases "realpath s dir")
    case (Inr r)
    then have "safeMakeDir_tail s dir root r = (s', Inl (Escape m))"
      using 1(2) by (simp add: safeMakeDir_hit)
    then have "s' = s \<and> \<not> startsWith r root" by (rule safeMakeDir_tail_escape)
    then have "(\<forall>j < (0::nat). \<exists>e. realpath s ((dirname ^^ j) dir) = Inl e) \<and>
        ((\<exists>r. realpath s ((dirname ^^ 0) dir) = Inr r \<and> \<not> startsWith r root \<and> s' = s) \<or>
         (\<exists>e rp. realpath s ((dirname ^^ 0) dir) = Inl e \<and>
            safeMakeDir s (dirname ((dirname ^^ 0) dir)) root = (s', Inr rp) \<and>
            \<not> startsWith rp root))"
      using Inr by simp
    then show ?thesis by (intro exI[of _ 0]) simp
  next
    case (Inl e)
    have depth: "safeMakeDir_depth s dir = Suc (safeMakeDir_depth s (dirname dir))"
      by (subst safeMakeDir_depth.simps) (simp add: Inl)
    obtain s1 r1 where inner: "safeMakeDir s (dirname dir) root = (s1, r1)" by force
    show ?thesis
    proof (cases r1)
      case il: (Inl err)
      have "safeMakeDir s dir root = (s1, Inl err)"
        by (simp add: safeMakeDir_miss[OF Inl] inner il)
      then have "safeMakeDir s (dirname dir) root = (s', Inl (Escape m))"
        using 1(2) inner il by simp
      from 1(1)[OF Inl this] obtain k where k: "k \<le> safeMakeDir_depth s (dirname dir)"
        "\<forall>j < k. \<exists>e. realpath s ((dirname ^^ j) (dirname dir)) = Inl e"
        "(\<exists>r. realpath s ((dirname ^^ k) (dirname dir)) = Inr r \<and> \<not> startsWith r root \<and> s' = s) \<or>
         (\<exists>e rp. realpath s ((dirname ^^ k) (dirname dir)) = Inl e \<and>
            safeMakeDir s (dirname ((dirname ^^ k) (dirname dir))) root = (s', Inr rp) \<and>
            \<not> startsWith rp root)"
        by auto
      have below: "\<forall>j < Suc k. \<exists>e. realpath s ((dirname ^^ j) dir) = Inl e"
      proof (intro allI impI)
        fix j
        assume "j < Suc k"
        show "\<exists>e. realpath s ((dirname ^^ j) dir) = Inl e"
        proof (cases j)
          case 0
          then show ?thesis using Inl by simp
        next
          case (Suc i)
          then have "i < k" using \<open>j < Suc k\<close> by simp
          then show ?thesis using k(2) Suc by (simp add: funpow_swap1)
        qed
      qed
      have "(\<forall>j < Suc k. \<exists>e. realpath s ((dirname ^^ j) dir) = Inl e) \<and>
        ((\<exists>r. realpath s ((dirname ^^ Suc k) dir) = Inr r \<and> \<not> startsWith r root \<and> s' = s) \<or>
         (\<exists>e rp. realpath s ((dirname ^^ Suc k) dir) = Inl e \<and>
            safeMakeDir s (dirname ((dirname ^^ Suc k) dir)) root = (s', Inr rp) \<and>
            \<not> startsWith rp root))"
        using below k(3) by (simp add: funpow_swap1)
      moreover have "Suc k \<le> safeMakeDir_depth s dir" using k(1) depth by simp
      ultimately show ?thesis by (intro exI[of _ "Suc k"]) simp
    next
      case ir: (Inr rp)
      have "safeMakeDir_tail s1 dir root rp = (s', Inl (Escape m))"
        using 1(2) by (simp add: safeMakeDir_miss[OF Inl] inner ir)
      then have "s' = s1 \<and> \<not> startsWith rp root" by (rule safeMakeDir_tail_escape)
      then have "(\<forall>j < (0::nat). \<exists>e. realpath s ((dirname ^^ j) dir) = Inl e) \<and>
        ((\<exists>r. realpath s ((dirname ^^ 0) dir) = Inr r \<and> \<not> startsWith r root \<and> s' = s) \<or>
         (\<exists>e rp. realpath s ((dirname ^^ 0) dir) = Inl e \<and>
            safeMakeDir s (dirname ((dirname ^^ 0) dir)) root = (s', Inr rp) \<and>
            \<not> startsWith rp root))"
        using Inl inner ir by simp
      then show ?thesis by (intro exI[of _ 0]) simp
    qed
  qed
qed

section \<open>Facts about the example states\<close>

lemma fs_sibling_linked_eq:
  "fs_sibling_linked =
     fs_sibling\<lparr>nodes := (nodes fs_sibling)([''out'', ''l''] \<mapsto> Lnk ''../out-evil'')\<rparr>"
  by (simp add: fs_sibling_linked_def write_defs path_defs fs_defs fs_sibling_def
      entry_link_sibling_def safeMakeDir.simps)

section \<open>The symlink guard\<close>



section \<open>The strip option\<close>

text \<open>
  C5 (as the spec states it: a File entry whose path has exactly N segments, with
  \<open>strip = N\<close>, is a no-op that creates nothing and drains the stream). \<open>stripDirs\<close> never
  strips the last piece of a path: the file \<open>a\<close> with \<open>strip = 1\<close> is written to \<open>/out/a\<close>.
  And where the stripped path is \<open>.\<close> (the path \<open>a/\<close>), the early return leaves the stream
  as it was given.
\<close>

theorem strip_all_segments_still_writes:
  "segments (path file_a) = [''a''] \<and> strip strip1 = 1 \<and>
   result (write' False file_a (Some ''data'') ''/out'' strip1 fs_out) = Inr () \<and>
   nodes (fs_after (write' False file_a (Some ''data'') ''/out'' strip1 fs_out)) [''out'', ''a'']
     = Some (Reg 0) \<and>
   segments (path (file_a\<lparr>path := ''a/''\<rparr>)) = [''a''] \<and>
   input_after (write' False (file_a\<lparr>path := ''a/''\<rparr>) (Some ''data'') ''/out'' strip1 fs_out)
     = Untouched"
  by (simp add: write_defs path_defs fs_defs safeMakeDir.simps file_a_def strip1_def fs_out_def)

text \<open>
  C5 (amended): for every entry whose path \<open>stripDirs\<close> reduces to \<open>.\<close> under a positive
  strip option, \<open>write\<close> succeeds at once: it throws no error and creates no file or
  directory.
\<close>

theorem strip_to_dot_is_noop:
  "0 < strip opts \<Longrightarrow> stripDirs (path f) (strip opts) = Inr ''.'' \<Longrightarrow>
   result (write' win32 f input output opts s) = Inr () \<and>
   fs_after (write' win32 f input output opts s) = s"
  by (simp add: write'_def)

theorem strip_to_dot_is_noop_witness:
  "0 < strip strip1 \<and> stripDirs (path (file_a\<lparr>path := ''a/''\<rparr>)) (strip strip1) = Inr ''.'' \<and>
   result (write' False (file_a\<lparr>path := ''a/''\<rparr>) (Some ''data'') ''/out'' strip1 fs_out) = Inr () \<and>
   fs_after (write' False (file_a\<lparr>path := ''a/''\<rparr>) (Some ''data'') ''/out'' strip1 fs_out) = fs_out"
proof -
  have a: "0 < strip strip1" by (simp add: strip1_def)
  have b: "stripDirs (path (file_a\<lparr>path := ''a/''\<rparr>)) (strip strip1) = Inr ''.''"
    by (simp add: strip1_def file_a_def path_defs isAbsolute_def)
  show ?thesis using a b strip_to_dot_is_noop [OF a b] by simp
qed

text \<open>
  C10: with a positive strip option the stripped path is assigned to the caller's object
  before anything else happens. The filter and the map are applied to the stripped entry,
  and when \<open>write\<close> is over the caller's object is the stripped entry, as the map left it
  when a map ran.
\<close>

theorem write_assigns_stripped_path:
  "0 < strip opts \<Longrightarrow> stripDirs (path f) (strip opts) = Inr p \<Longrightarrow>
   file_after (write' win32 f input output opts s) =
     (if p = ''.'' then f\<lparr>path := p\<rparr>
      else if (case filter_opt opts of None \<Rightarrow> False | Some keep \<Rightarrow> \<not> keep (f\<lparr>path := p\<rparr>))
      then f\<lparr>path := p\<rparr>
      else (case map_opt opts of None \<Rightarrow> f\<lparr>path := p\<rparr> | Some m \<Rightarrow> fst (m (f\<lparr>path := p\<rparr>))))"
  by (simp add: write'_def split: prod.splits option.splits)

theorem write_assigns_stripped_path_witness:
  "0 < strip strip1_unicorn \<and>
   stripDirs (path file_deep) (strip strip1_unicorn) = Inr ''a/test.bin'' \<and>
   path (file_after (write' False file_deep (Some ''data'') ''/out'' strip1_unicorn fs_out))
     = ''unicorn-a/test.bin''"
proof -
  have a: "0 < strip strip1_unicorn" by (simp add: strip1_unicorn_def)
  have b: "stripDirs (path file_deep) (strip strip1_unicorn) = Inr ''a/test.bin''"
    by (simp add: strip1_unicorn_def file_deep_def path_defs isAbsolute_def)
  show ?thesis using a b write_assigns_stripped_path [OF a b, of False "Some ''data''" "''/out''" fs_out]
    by (simp add: strip1_unicorn_def unicorn_def file_deep_def)
qed

section \<open>Containment\<close>

text \<open>
  C1 (every creation, write or link happens at or beneath the canonical output root, or the
  call fails with Escape), evaluated on an archive of two entries extracted to \<open>/out\<close>
  beside an existing directory \<open>/out-evil\<close>. The link \<open>l\<close> is made; the canonical parent
  of \<open>l/x\<close> is \<open>/out-evil\<close>, which starts with the string \<open>/out\<close>, so both checks pass and
  the file is created at \<open>/out-evil/x\<close>, outside the root.
\<close>

theorem write_outside_root_through_sibling:
  "result (write' False entry_link_sibling None ''/out'' no_options fs_sibling) = Inr () \<and>
   realpath fs_sibling_linked ''/out'' = Inr ''/out'' \<and>
   result (write' False entry_through_link (Some ''data'') ''/out'' no_options fs_sibling_linked) = Inr () \<and>
   nodes fs_sibling [''out-evil'', ''x''] = None \<and>
   nodes (fs_after (write' False entry_through_link (Some ''data'') ''/out'' no_options fs_sibling_linked))
     [''out-evil'', ''x''] = Some (Reg 0)"
  by (simp add: fs_sibling_linked_eq)
    (simp add: write_defs path_defs fs_defs safeMakeDir.simps fs_sibling_def
       entry_link_sibling_def entry_through_link_def)




section \<open>The path resolver\<close>



section \<open>Links\<close>




section \<open>Writing through a link\<close>



section \<open>Termination\<close>

text \<open>
  C7: \<open>safeMakeDir\<close> is total (its termination is proved above: a call recurses only
  when \<open>realpath\<close> fails, the paths \<open>/\<close> and \<open>.\<close> always resolve, and \<open>dirname\<close> shortens every
  other path). Each recursive call is on the parent, which has at least one segment less,
  so the number of recursive calls is at most the number of segments of the path; the
  empty string, which has no segment, costs one call, on \<open>.\<close>.
\<close>

theorem safeMakeDir_recursion_bounded:
  "safeMakeDir_depth s dir \<le> max 1 (length (segments dir))"
  using safeMakeDir_depth_bound[of s dir] by (simp split: if_splits)

section \<open>The check comes before the creation\<close>

text \<open>
  C4: a call of \<open>safeMakeDir\<close> that fails with Escape has made no directory at its own
  level: when its path resolves, the check is on that canonical path and the file system
  is untouched; when it does not, the file system is the one the call on the parent left.
  Over the whole recursion there is a level \<open>k\<close>, counted in steps to the parent, at which
  the check failed: no path below that level resolved, and the final state is the state
  in which that check was made, either the initial one or the one left by the call on the
  parent of level \<open>k\<close>, which succeeded. So nothing is made at level \<open>k\<close> or below it, and
  what was made was made by calls on ancestors that passed their checks.
\<close>

theorem escape_before_mkdirs:
  assumes "safeMakeDir s dir root = (s', Inl (Escape m))"
  shows "(\<forall>r. realpath s dir = Inr r \<longrightarrow> \<not> startsWith r root \<and> s' = s) \<and>
         (\<forall>e. realpath s dir = Inl e \<longrightarrow> fst (safeMakeDir s (dirname dir) root) = s') \<and>
         (\<exists>k \<le> safeMakeDir_depth s dir.
            (\<forall>j < k. \<exists>e. realpath s ((dirname ^^ j) dir) = Inl e) \<and>
            ((\<exists>r. realpath s ((dirname ^^ k) dir) = Inr r \<and> \<not> startsWith r root \<and> s' = s) \<or>
             (\<exists>e rp. realpath s ((dirname ^^ k) dir) = Inl e \<and>
                safeMakeDir s (dirname ((dirname ^^ k) dir)) root = (s', Inr rp) \<and>
                \<not> startsWith rp root)))"
proof (intro conjI allI impI)
  fix r
  assume "realpath s dir = Inr r"
  then have "safeMakeDir_tail s dir root r = (s', Inl (Escape m))"
    using assms by (simp add: safeMakeDir_hit)
  then have "s' = s \<and> \<not> startsWith r root" by (rule safeMakeDir_tail_escape)
  then show "\<not> startsWith r root" "s' = s" by simp_all
next
  fix e
  assume miss: "realpath s dir = Inl e"
  obtain s1 r1 where inner: "safeMakeDir s (dirname dir) root = (s1, r1)" by force
  show "fst (safeMakeDir s (dirname dir) root) = s'"
  proof (cases r1)
    case (Inl err)
    then show ?thesis using assms by (simp add: safeMakeDir_miss[OF miss] inner)
  next
    case (Inr rp)
    then have "safeMakeDir_tail s1 dir root rp = (s', Inl (Escape m))"
      using assms by (simp add: safeMakeDir_miss[OF miss] inner)
    then have "s' = s1" using safeMakeDir_tail_escape by blast
    then show ?thesis by (simp add: inner)
  qed
next
  show "\<exists>k \<le> safeMakeDir_depth s dir.
            (\<forall>j < k. \<exists>e. realpath s ((dirname ^^ j) dir) = Inl e) \<and>
            ((\<exists>r. realpath s ((dirname ^^ k) dir) = Inr r \<and> \<not> startsWith r root \<and> s' = s) \<or>
             (\<exists>e rp. realpath s ((dirname ^^ k) dir) = Inl e \<and>
                safeMakeDir s (dirname ((dirname ^^ k) dir)) root = (s', Inr rp) \<and>
                \<not> startsWith rp root))"
    using assms by (rule safeMakeDir_escape_level)
qed

theorem escape_before_mkdirs_witness:
  "safeMakeDir fs_etc ''/etc/a/b'' ''/out'' =
     (fs_etc, Inl (Escape ''Refusing to create a directory outside the output path.'')) \<and>
   realpath fs_etc ''/etc/a/b'' = Inl ENOENT \<and>
   realpath fs_etc (dirname ''/etc/a/b'') = Inl ENOENT \<and>
   realpath fs_etc (dirname (dirname ''/etc/a/b'')) = Inr ''/etc'' \<and>
   \<not> startsWith ''/etc'' ''/out'' \<and>
   fst (safeMakeDir fs_etc (dirname ''/etc/a/b'') ''/out'') = fs_etc \<and>
   nodes fs_etc [''etc'', ''a''] = None \<and>
   nodes (fst (safeMakeDir fs_etc ''/etc/a/b'' ''/etc'')) [''etc'', ''a''] = Some Dir \<and>
   (\<exists>k \<le> safeMakeDir_depth fs_etc ''/etc/a/b''.
      (\<forall>j < k. \<exists>e. realpath fs_etc ((dirname ^^ j) ''/etc/a/b'') = Inl e) \<and>
      ((\<exists>r. realpath fs_etc ((dirname ^^ k) ''/etc/a/b'') = Inr r \<and>
            \<not> startsWith r ''/out'' \<and> fs_etc = fs_etc) \<or>
       (\<exists>e rp. realpath fs_etc ((dirname ^^ k) ''/etc/a/b'') = Inl e \<and>
          safeMakeDir fs_etc (dirname ((dirname ^^ k) ''/etc/a/b'')) ''/out'' = (fs_etc, Inr rp) \<and>
          \<not> startsWith rp ''/out'')))"
proof -
  have a: "safeMakeDir fs_etc ''/etc/a/b'' ''/out'' =
     (fs_etc, Inl (Escape ''Refusing to create a directory outside the output path.''))"
    by (simp add: safeMakeDir.simps fs_defs path_defs fs_etc_def)
  have b: "realpath fs_etc ''/etc/a/b'' = Inl ENOENT"
    by (simp add: fs_defs fs_etc_def)
  have c: "realpath fs_etc (dirname ''/etc/a/b'') = Inl ENOENT"
    by (simp add: fs_defs path_defs fs_etc_def)
  have d: "realpath fs_etc (dirname (dirname ''/etc/a/b'')) = Inr ''/etc''"
    by (simp add: fs_defs path_defs fs_etc_def)
  have e: "\<not> startsWith ''/etc'' ''/out''" by (simp add: startsWith_def)
  have n: "nodes fs_etc [''etc'', ''a''] = None" by (simp add: fs_etc_def)
  have g: "nodes (fst (safeMakeDir fs_etc ''/etc/a/b'' ''/etc'')) [''etc'', ''a''] = Some Dir"
    by (simp add: safeMakeDir.simps fs_defs path_defs fs_etc_def)
  note t = escape_before_mkdirs [OF a]
  show ?thesis using a b c d e n g t by blast
qed

end
